theory Spec2Isabelle
  imports Main "HOL-Library.Multiset" "HOL-Library.Char_ord" "HOL-Library.List_Lexorder"
begin

section \<open>Byte sources and line reading\<close>

text \<open>
  The mbox file is modelled by its content, a list of bytes (\<open>char\<close> is an 8-bit
  character). A binary file handle is the content together with the read offset;
  \<open>handle.readline()\<close> returns the bytes up to and including the next line feed, the
  rest of the file when no line feed follows, and \<open>b''\<close> at the end of the file.
\<close>

type_synonym bytes = "char list"

record handle =
  content :: bytes
  offset :: nat

fun first_line :: "bytes \<Rightarrow> bytes" where
  "first_line [] = []"
| "first_line (c # cs) = (if c = CHR 0x0A then [c] else c # first_line cs)"

definition readline :: "handle \<Rightarrow> bytes \<times> handle" where
  "readline h =
     (let line = first_line (drop (offset h) (content h))
      in (line, h\<lparr>offset := offset h + length line\<rparr>))"

definition startswith :: "'a list \<Rightarrow> 'a list \<Rightarrow> bool" where
  "startswith s p = (take (length p) s = p)"

section \<open>MboxReader\<close>

text \<open>
  The exceptions of a run: the assertion of \<open>__init__\<close>, and the \<open>IndexError\<close>
  that the \<open>email\<close> package raises on some malformed header values.
\<close>

datatype error = AssertionError | IndexError

record MboxReader =
  handle :: handle
  size :: nat

text \<open>
  \<open>MboxReader.__init__\<close>: measure the file, rewind, read the first line and assert
  that it starts with \<open>b'From '\<close>. The line read by the assertion is consumed.
\<close>

definition MboxReader_init :: "bytes \<Rightarrow> error + MboxReader" where
  "MboxReader_init file =
     (let h = \<lparr>content = file, offset = 0\<rparr>;
          sz = length file
      in case readline h of (line, h') \<Rightarrow>
           if startswith line ''From '' then Inr \<lparr>handle = h', size = sz\<rparr>
           else Inl AssertionError)"

definition pos :: "MboxReader \<Rightarrow> nat" where
  "pos r = offset (handle r)"

text \<open>
  \<open>email.message_from_bytes\<close> is an external collaborator: it is a parameter
  \<open>parse\<close> that maps the bytes of a record to its header lookup, or to the exception
  that the parser raises on them. A header lookup \<open>msg[name]\<close> gives the value of the
  header, \<open>None\<close> for an absent header, or raises: with \<open>policy=default\<close> the value
  is parsed when it is looked up. The scanner attaches the byte length \<open>_x_sz\<close>.
\<close>

type_synonym headers = "string \<Rightarrow> error + string option"

record Message =
  raw :: bytes
  headers :: headers
  x_sz :: int

definition message_from_bytes :: "(bytes \<Rightarrow> error + headers) \<Rightarrow> bytes \<Rightarrow> error + Message" where
  "message_from_bytes parse bytes' =
     (case parse bytes' of
        Inl e \<Rightarrow> Inl e
      | Inr hs \<Rightarrow> Inr \<lparr>raw = bytes', headers = hs, x_sz = int (length bytes')\<rparr>)"

text \<open>
  A generator is modelled by the list of the items it yields and the exception that
  ends it, if one does: an exception raised inside a generator, or by its consumer,
  ends the run after the items yielded so far.
\<close>

type_synonym 'a generator = "'a list \<times> error option"

definition yield :: "'a \<Rightarrow> 'a generator \<Rightarrow> 'a generator" where
  "yield x g = (x # fst g, snd g)"

definition raise :: "error \<Rightarrow> 'a generator" where
  "raise e = ([], Some e)"

definition stop :: "'a generator" where
  "stop = ([], None)"

text \<open>
  \<open>MboxReader.__next__\<close>: the generator's \<open>while True\<close> loop. \<open>lines\<close> is the buffer
  of the record being read.
\<close>

function MboxReader_next ::
  "(bytes \<Rightarrow> error + headers) \<Rightarrow> handle \<Rightarrow> bytes list \<Rightarrow> Message generator" where
  "MboxReader_next parse h lines =
     (case readline h of (line, h') \<Rightarrow>
        if line = [] \<or> startswith line ''From '' then
          (case message_from_bytes parse (concat lines) of
             Inl e \<Rightarrow> raise e
           | Inr msg \<Rightarrow>
               yield msg (if line = [] then stop else MboxReader_next parse h' []))
        else MboxReader_next parse h' (lines @ [line]))"
  by pat_completeness auto

lemma first_line_Nil_iff: "first_line bs = [] \<longleftrightarrow> bs = []"
  by (cases bs) auto

lemma length_first_line_le: "length (first_line bs) \<le> length bs"
  by (induction bs) auto

lemma readline_decreases:
  assumes "readline h = (line, h')" and "line \<noteq> []"
  shows "length (content h') - offset h' < length (content h) - offset h"
proof -
  let ?rest = "drop (offset h) (content h)"
  from assms have l: "line = first_line ?rest" and h': "h' = h\<lparr>offset := offset h + length line\<rparr>"
    by (auto simp: readline_def Let_def)
  from l assms(2) have "?rest \<noteq> []" by (auto simp: first_line_Nil_iff)
  then have lt: "offset h < length (content h)" by simp
  have "length line \<le> length ?rest" unfolding l by (rule length_first_line_le)
  moreover have "0 < length line" using assms(2) by simp
  ultimately have "length (content h) - (offset h + length line) < length (content h) - offset h"
    using lt by arith
  then show ?thesis using h' by simp
qed

termination MboxReader_next
  by (relation "measure (\<lambda>(parse, h, lines). length (content h) - offset h)")
     (auto dest: readline_decreases [OF sym])

declare MboxReader_next.simps [simp del]

definition MboxReader_iter ::
  "(bytes \<Rightarrow> error + headers) \<Rightarrow> MboxReader \<Rightarrow> Message generator" where
  "MboxReader_iter parse r = MboxReader_next parse (handle r) []"

section \<open>Statistics lines and the normalizers\<close>

text \<open>
  Python's integers are unbounded, so the two counters are of type \<open>int\<close>. A Python
  string is a list of characters; the order of strings is the lexicographic order over
  the order of the character codes, as in Python.
\<close>

record StatisticsLine =
  count :: int
  total_size_bytes :: int
  from_addr :: string
  labels :: string

text \<open>
  \<open>str.split(',')\<close>: the tokens between the separators; the empty string gives one
  empty token. \<open>','.join\<close> puts the separator between the tokens.
\<close>

fun split_on :: "char \<Rightarrow> string \<Rightarrow> string list" where
  "split_on sep [] = [[]]"
| "split_on sep (c # cs) =
     (if c = sep then [] # split_on sep cs
      else (case split_on sep cs of [] \<Rightarrow> [[c]] | t # ts \<Rightarrow> (c # t) # ts))"

fun join :: "string \<Rightarrow> string list \<Rightarrow> string" where
  "join sep [] = []"
| "join sep [x] = x"
| "join sep (x # y # ys) = x @ sep @ join sep (y # ys)"

text \<open>\<open>filter_gmail_labels\<close>: the \<open>for\<close> loop with its two \<open>continue\<close> guards.\<close>

fun filter_loop :: "string list \<Rightarrow> string list \<Rightarrow> string list" where
  "filter_loop [] good_labels = good_labels"
| "filter_loop (x # labels') good_labels =
     (if x \<in> {''Inbox'', ''Important'', ''Opened''} then filter_loop labels' good_labels
      else if startswith x ''Category '' then filter_loop labels' good_labels
      else filter_loop labels' (good_labels @ [x]))"

definition filter_gmail_labels :: "string \<Rightarrow> string list" where
  "filter_gmail_labels comma_separated_labels =
     filter_loop (split_on CHR '','' comma_separated_labels) []"

text \<open>
  \<open>extract_address\<close> searches with the regular expression \<open><([^>@]+@[^>]+)>\<close>.
  \<open>match_here\<close> is a match of that expression anchored at the start of the string:
  it returns group 1 and the text after the match. Both repetitions are greedy over a
  negated character class, and the character that must follow each of them is outside
  that class, so backtracking to a shorter repetition never succeeds.
\<close>

definition match_here :: "string \<Rightarrow> (string \<times> string) option" where
  "match_here s =
     (case s of
        [] \<Rightarrow> None
      | c # r \<Rightarrow>
          if c \<noteq> CHR ''<'' then None
          else
            let local = takeWhile (\<lambda>c. c \<noteq> CHR ''>'' \<and> c \<noteq> CHR ''@'') r;
                r1 = dropWhile (\<lambda>c. c \<noteq> CHR ''>'' \<and> c \<noteq> CHR ''@'') r
            in if local = [] then None
               else (case r1 of
                 [] \<Rightarrow> None
               | c1 # r2 \<Rightarrow>
                   if c1 \<noteq> CHR ''@'' then None
                   else
                     let domain = takeWhile (\<lambda>c. c \<noteq> CHR ''>'') r2;
                         r3 = dropWhile (\<lambda>c. c \<noteq> CHR ''>'') r2
                     in if domain = [] then None
                        else (case r3 of
                          [] \<Rightarrow> None
                        | c3 # r4 \<Rightarrow> Some (local @ CHR ''@'' # domain, r4))))"

lemma match_here_shorter:
  assumes "match_here s = Some (g, rest)"
  shows "length rest < length s"
proof -
  have dw: "length (dropWhile P xs) \<le> length xs" for P and xs :: string
    by (induction xs) auto
  from assms obtain r r2 r4 c3 where
    s: "s = CHR ''<'' # r" and
    r1: "dropWhile (\<lambda>c. c \<noteq> CHR ''>'' \<and> c \<noteq> CHR ''@'') r = CHR ''@'' # r2" and
    r3: "dropWhile (\<lambda>c. c \<noteq> CHR ''>'') r2 = c3 # r4" and rest: "rest = r4"
    by (auto simp: match_here_def Let_def split: list.splits if_splits)
  have "length r4 < length r2" using dw [of "\<lambda>c. c \<noteq> CHR ''>''" r2] r3 by simp
  moreover have "length r2 < length r"
    using dw [of "\<lambda>c. c \<noteq> CHR ''>'' \<and> c \<noteq> CHR ''@''" r] r1 by simp
  ultimately show ?thesis using s rest by simp
qed

text \<open>\<open>re.findall\<close>: the groups of the non-overlapping matches, left to right.\<close>

function findall :: "string \<Rightarrow> string list" where
  "findall [] = []"
| "findall (c # cs) =
     (case match_here (c # cs) of
        Some (g, rest) \<Rightarrow> g # findall rest
      | None \<Rightarrow> findall cs)"
  by pat_completeness auto
termination
  by (relation "measure length") (auto dest: match_here_shorter)

definition extract_address :: "string \<Rightarrow> string" where
  "extract_address x = (case findall x of [] \<Rightarrow> x | g # _ \<Rightarrow> g)"

section \<open>The pipeline stages\<close>

text \<open>
  An absent header is replaced by \<open>str(None)\<close>; a header that is present is kept
  (the two \<open>if ... is None\<close> of \<open>read_messages\<close>).
\<close>

definition str_or_None :: "string option \<Rightarrow> string" where
  "str_or_None v = (case v of None \<Rightarrow> ''None'' | Some s \<Rightarrow> s)"

text \<open>
  \<open>read_messages\<close>: one \<open>StatisticsLine\<close> per message of the reader, until the
  reader ends or one of the three header lookups raises. The progress log reads the clock
  and the offset only and is left out.
\<close>

definition statistics_line :: "Message \<Rightarrow> error + StatisticsLine" where
  "statistics_line msg =
     (let size = x_sz msg
      in case headers msg ''From'' of
           Inl e \<Rightarrow> Inl e
         | Inr from' \<Rightarrow>
            (case headers msg ''To'' of
               Inl e \<Rightarrow> Inl e
             | Inr to' \<Rightarrow>
                (case headers msg ''X-Gmail-Labels'' of
                   Inl e \<Rightarrow> Inl e
                 | Inr gmail_labels \<Rightarrow>
                     let gmail_labels = str_or_None gmail_labels;
                         from' = str_or_None from';
                         from' = extract_address from';
                         labels = filter_gmail_labels gmail_labels;
                         labels = join '','' (sort labels)
                     in Inr \<lparr>count = 1, total_size_bytes = size,
                             from_addr = from', labels = labels\<rparr>)))"

fun read_messages_loop :: "Message list \<Rightarrow> error option \<Rightarrow> StatisticsLine generator" where
  "read_messages_loop [] r = ([], r)"
| "read_messages_loop (msg # rest) r =
     (case statistics_line msg of
        Inl e \<Rightarrow> raise e
      | Inr line \<Rightarrow> yield line (read_messages_loop rest r))"

definition read_messages ::
  "(bytes \<Rightarrow> error + headers) \<Rightarrow> MboxReader \<Rightarrow> StatisticsLine generator" where
  "read_messages parse reader =
     (case MboxReader_iter parse reader of (msgs, r) \<Rightarrow> read_messages_loop msgs r)"

text \<open>
  \<open>agg_stats\<close>: two \<open>defaultdict(int)\<close>, which keep their keys in insertion order, as
  association lists. \<open>d[k] += v\<close> inserts the key with 0 at the end when it is missing.
\<close>

type_synonym key = "string \<times> string"

fun dict_add :: "(key \<times> int) list \<Rightarrow> key \<Rightarrow> int \<Rightarrow> (key \<times> int) list" where
  "dict_add [] k v = [(k, 0 + v)]"
| "dict_add ((k', w) # d) k v =
     (if k' = k then (k', w + v) # d else (k', w) # dict_add d k v)"

definition dict_get :: "(key \<times> int) list \<Rightarrow> key \<Rightarrow> int" where
  "dict_get d k = (case map_of d k of None \<Rightarrow> 0 | Some v \<Rightarrow> v)"

definition key :: "StatisticsLine \<Rightarrow> key" where
  "key x = (from_addr x, labels x)"

fun agg_loop ::
  "StatisticsLine list \<Rightarrow> (key \<times> int) list \<Rightarrow> (key \<times> int) list
     \<Rightarrow> (key \<times> int) list \<times> (key \<times> int) list" where
  "agg_loop [] sizes counts = (sizes, counts)"
| "agg_loop (m # ms) sizes counts =
     (let k = key m
      in agg_loop ms (dict_add sizes k (total_size_bytes m)) (dict_add counts k (count m)))"

definition agg_stats :: "StatisticsLine list \<Rightarrow> StatisticsLine list" where
  "agg_stats ms =
     (case agg_loop ms [] [] of (sizes, counts) \<Rightarrow>
        map (\<lambda>(k, sz). \<lparr>count = dict_get counts k, total_size_bytes = sz,
                         from_addr = fst k, labels = snd k\<rparr>) sizes)"

text \<open>\<open>sort_stats\<close>: \<open>list.sort\<close> with a key is a stable sort.\<close>

definition sort_stats :: "StatisticsLine list \<Rightarrow> StatisticsLine list" where
  "sort_stats ms = sort_key total_size_bytes ms"

text \<open>
  \<open>agg_stats\<close> and \<open>sort_stats\<close> read all of their input before they produce
  anything, so an exception in their input leaves nothing to print.
\<close>

definition drain :: "'a generator \<Rightarrow> ('a list \<Rightarrow> 'b list) \<Rightarrow> 'b generator" where
  "drain g f = (case snd g of None \<Rightarrow> (f (fst g), None) | Some e \<Rightarrow> raise e)"

text \<open>
  \<open>main\<close>: the stages composed under the two flags. A failed construction of the
  reader ends the run before anything is read; otherwise the result is what is printed
  and the exception that ends the run, if one does.
\<close>

definition main ::
  "(bytes \<Rightarrow> error + headers) \<Rightarrow> bytes \<Rightarrow> bool \<Rightarrow> bool \<Rightarrow> error + StatisticsLine generator" where
  "main parse file agg srt =
     (case MboxReader_init file of
        Inl e \<Rightarrow> Inl e
      | Inr reader \<Rightarrow>
          let messages = read_messages parse reader;
              messages = (if agg then drain messages agg_stats else messages);
              messages = (if srt then drain messages sort_stats else messages)
          in Inr messages)"

section \<open>The scanner over the lines of the source\<close>

text \<open>
  \<open>lines_of\<close> is the sequence of lines that successive \<open>readline\<close> calls return on a
  byte string. \<open>bodies\<close> is the loop of \<open>__next__\<close> over that sequence, with the
  buffers it closes as its value, and \<open>emit\<close> is the parsing and yielding of those
  buffers in turn. The handle-level loop is proved equal to their composition below.
\<close>

function lines_of :: "bytes \<Rightarrow> bytes list" where
  "lines_of bs =
     (if bs = [] then [] else first_line bs # lines_of (drop (length (first_line bs)) bs))"
  by pat_completeness auto
termination
  by (relation "measure length") (auto simp: first_line_Nil_iff)

declare lines_of.simps [simp del]

fun bodies :: "bytes list \<Rightarrow> bytes list \<Rightarrow> bytes list" where
  "bodies [] lines = [concat lines]"
| "bodies (line # rest) lines =
     (if startswith line ''From '' then concat lines # bodies rest []
      else bodies rest (lines @ [line]))"

fun emit :: "(bytes \<Rightarrow> error + headers) \<Rightarrow> bytes list \<Rightarrow> Message generator" where
  "emit parse [] = stop"
| "emit parse (b # bs) =
     (case message_from_bytes parse b of
        Inl e \<Rightarrow> raise e
      | Inr msg \<Rightarrow> yield msg (emit parse bs))"

text \<open>
  The records as the specification delimits them: every sentinel line opens a record,
  which holds that line and the lines after it up to the next sentinel line.
  \<open>record_with_delimiter\<close> is the record with its leading delimiter line,
  \<open>record_body\<close> the record without it.
\<close>

function split_records :: "bytes list \<Rightarrow> (bytes \<times> bytes list) list" where
  "split_records [] = []"
| "split_records (s # ls) =
     (s, takeWhile (\<lambda>l. \<not> startswith l ''From '') ls) #
       split_records (dropWhile (\<lambda>l. \<not> startswith l ''From '') ls)"
  by pat_completeness auto
termination
  by (relation "measure length") (auto simp: length_dropWhile_le less_Suc_eq_le)


fun record_with_delimiter :: "bytes \<times> bytes list \<Rightarrow> bytes" where
  "record_with_delimiter (s, b) = s @ concat b"

fun record_body :: "bytes \<times> bytes list \<Rightarrow> bytes" where
  "record_body (s, b) = concat b"


definition sentinel_with_token :: "bytes \<Rightarrow> bool" where
  "sentinel_with_token line =
     (startswith line ''From '' \<and>
      list_ex (\<lambda>c. c \<noteq> CHR '' '' \<and> c \<noteq> CHR 0x0A \<and> c \<noteq> CHR 0x0D) (drop 5 line))"

text \<open>
  The order of first occurrence: the distinct elements of a list, each at the place
  where it occurs first.
\<close>

fun first_occurrences :: "'a list \<Rightarrow> 'a list" where
  "first_occurrences [] = []"
| "first_occurrences (x # xs) = x # removeAll x (first_occurrences xs)"

text \<open>
  The form of a bracketed address in the words of the specification: \<open><local@domain>\<close>
  where \<open>local\<close> contains no \<open>>\<close> and no \<open>@\<close> and \<open>domain\<close> contains no
  \<open>>\<close>.
\<close>

definition address_form :: "string \<Rightarrow> string \<Rightarrow> bool" where
  "address_form local domain =
     (CHR ''>'' \<notin> set local \<and> CHR ''@'' \<notin> set local \<and> CHR ''>'' \<notin> set domain)"

definition bracketed :: "string \<Rightarrow> string \<Rightarrow> string" where
  "bracketed local domain = CHR ''<'' # local @ CHR ''@'' # domain @ ''>''"

text \<open>
  Parsers for runs on concrete sources. \<open>no_headers\<close> finds no header in any record.
  \<open>malformed bad\<close> is the lookup of a record whose only header, \<open>bad\<close>, has a value
  that the library fails to parse, such as \<open>To: <\<close> or \<open>From: a@\<close>: looking it up
  raises \<open>IndexError\<close>, and the other headers are absent. \<open>sample_parse\<close> parses those
  two records so, raises \<open>IndexError\<close> on a record that starts with the header
  \<open>Content-Type: text/plain; charset*\<close>, as the library does, and finds no header in
  any other record.
\<close>

definition no_headers :: "bytes \<Rightarrow> error + headers" where
  "no_headers bs = Inr (\<lambda>name. Inr None)"

definition malformed :: "string \<Rightarrow> headers" where
  "malformed bad name = (if name = bad then Inl IndexError else Inr None)"

definition sample_parse :: "bytes \<Rightarrow> error + headers" where
  "sample_parse bs =
     (if bs = ''From: a@\<newline>\<newline>'' then Inr (malformed ''From'')
      else if bs = ''To: <\<newline>\<newline>'' then Inr (malformed ''To'')
      else if startswith bs ''Content-Type: text/plain; charset*'' then Inl IndexError
      else Inr (\<lambda>name. Inr None))"

section \<open>Properties of the scanner\<close>

lemma lines_of_Nil [simp]: "lines_of [] = []"
  by (simp add: lines_of.simps)

lemma lines_of_nonempty:
  "bs \<noteq> [] \<Longrightarrow> lines_of bs = first_line bs # lines_of (drop (length (first_line bs)) bs)"
  by (subst lines_of.simps) simp

lemma first_line_prefix: "first_line bs @ drop (length (first_line bs)) bs = bs"
  by (induction bs) auto

lemma concat_lines_of: "concat (lines_of bs) = bs"
proof (induction bs rule: lines_of.induct)
  case (1 bs)
  show ?case
  proof (cases "bs = []")
    case True
    then show ?thesis by simp
  next
    case False
    with 1 show ?thesis by (simp add: lines_of_nonempty first_line_prefix)
  qed
qed

lemma readline_eq:
  "readline h = (first_line (drop (offset h) (content h)),
                 h\<lparr>offset := offset h + length (first_line (drop (offset h) (content h)))\<rparr>)"
  by (simp add: readline_def Let_def)

lemma MboxReader_next_emit:
  "MboxReader_next parse h lines =
     emit parse (bodies (lines_of (drop (offset h) (content h))) lines)"
proof (induction parse h lines rule: MboxReader_next.induct)
  case (1 parse h lines)
  let ?rest = "drop (offset h) (content h)"
  let ?line = "first_line ?rest"
  let ?h' = "h\<lparr>offset := offset h + length ?line\<rparr>"
  have rl: "readline h = (?line, ?h')" by (rule readline_eq)
  have dr: "drop (offset ?h') (content ?h') = drop (length ?line) ?rest"
    by (simp add: add.commute)
  show ?case
  proof (cases "?rest = []")
    case True
    then have "?line = []" by simp
    then show ?thesis using True rl
      by (subst MboxReader_next.simps) (simp split: sum.splits)
  next
    case False
    then have ne: "?line \<noteq> []" by (simp add: first_line_Nil_iff)
    have lo: "lines_of ?rest = ?line # lines_of (drop (length ?line) ?rest)"
      using False by (rule lines_of_nonempty)
    show ?thesis
    proof (cases "startswith ?line ''From ''")
      case True
      show ?thesis
      proof (cases "message_from_bytes parse (concat lines)")
        case (Inl e)
        then show ?thesis using True ne rl lo
          by (subst MboxReader_next.simps) simp
      next
        case (Inr msg)
        have "MboxReader_next parse ?h' [] =
              emit parse (bodies (lines_of (drop (offset ?h') (content ?h'))) [])"
          using 1(1) [OF rl [symmetric] _ Inr ne] True by simp
        then show ?thesis using True ne rl lo dr Inr
          by (subst MboxReader_next.simps) simp
      qed
    next
      case nf: False
      have "MboxReader_next parse ?h' (lines @ [?line]) =
            emit parse (bodies (lines_of (drop (offset ?h') (content ?h'))) (lines @ [?line]))"
        using 1(2) [OF rl [symmetric]] nf ne by simp
      then show ?thesis using nf ne rl lo dr
        by (subst MboxReader_next.simps) simp
    qed
  qed
qed

lemma bodies_split_records:
  "bodies ls buf =
     concat (buf @ takeWhile (\<lambda>l. \<not> startswith l ''From '') ls) #
       map record_body (split_records (dropWhile (\<lambda>l. \<not> startswith l ''From '') ls))"
proof (induction ls arbitrary: buf)
  case Nil
  show ?case by simp
next
  case (Cons l ls)
  show ?case
  proof (cases "startswith l ''From ''")
    case True
    then show ?thesis using Cons [of "[]"] by simp
  next
    case False
    then show ?thesis using Cons [of "buf @ [l]"] by simp
  qed
qed

lemma bodies_sum:
  "sum_list (map length (bodies ls buf)) =
     length (concat buf) + sum_list (map length (filter (\<lambda>l. \<not> startswith l ''From '') ls))"
  by (induction ls arbitrary: buf) auto


lemma emit_raw:
  "map raw (fst (emit parse bs)) = take (length (fst (emit parse bs))) bs"
  by (induction bs) (auto simp: stop_def raise_def yield_def message_from_bytes_def split: sum.splits)

lemma emit_x_sz:
  "map x_sz (fst (emit parse bs)) = map (\<lambda>m. int (length (raw m))) (fst (emit parse bs))"
  by (induction bs) (auto simp: stop_def raise_def yield_def message_from_bytes_def split: sum.splits)

lemma emit_length_le: "length (fst (emit parse bs)) \<le> length bs"
  by (induction bs) (auto simp: stop_def raise_def yield_def split: sum.splits)

lemma emit_complete:
  "snd (emit parse bs) = None \<Longrightarrow> length (fst (emit parse bs)) = length bs"
  by (induction bs) (auto simp: stop_def raise_def yield_def split: sum.splits)

lemma emit_total:
  "(\<And>b. \<exists>hs. parse b = Inr hs) \<Longrightarrow> snd (emit parse bs) = None"
proof (induction bs)
  case Nil
  show ?case by (simp add: stop_def)
next
  case (Cons b bs)
  from Cons.prems obtain hs where "parse b = Inr hs" by blast
  then show ?case using Cons
    by (simp add: message_from_bytes_def yield_def)
qed

lemma startswith_From_nonempty: "startswith l ''From '' \<Longrightarrow> l \<noteq> []"
  by (auto simp: startswith_def)

lemma MboxReader_init_Inr_iff:
  "MboxReader_init file = Inr r \<longleftrightarrow>
     startswith (first_line file) ''From '' \<and>
     r = \<lparr>handle = \<lparr>content = file, offset = length (first_line file)\<rparr>, size = length file\<rparr>"
  by (auto simp: MboxReader_init_def readline_def Let_def)

lemma lines_of_init:
  assumes "MboxReader_init file = Inr r"
  shows "lines_of file = first_line file # lines_of (drop (length (first_line file)) file)"
proof -
  from assms have "startswith (first_line file) ''From ''"
    by (simp add: MboxReader_init_Inr_iff)
  then have "first_line file \<noteq> []" by (rule startswith_From_nonempty)
  then have "file \<noteq> []" by (simp add: first_line_Nil_iff)
  then show ?thesis by (rule lines_of_nonempty)
qed

lemma MboxReader_iter_emit:
  assumes "MboxReader_init file = Inr r"
  shows "MboxReader_iter parse r =
           emit parse (bodies (lines_of (drop (length (first_line file)) file)) [])"
proof -
  from assms have r: "r = \<lparr>handle = \<lparr>content = file, offset = length (first_line file)\<rparr>, size = length file\<rparr>"
    by (simp add: MboxReader_init_Inr_iff)
  show ?thesis
    unfolding MboxReader_iter_def MboxReader_next_emit by (simp add: r)
qed

lemma bodies_init:
  assumes "MboxReader_init file = Inr r"
  shows "bodies (lines_of (drop (length (first_line file)) file)) [] =
           map record_body (split_records (lines_of file))"
  using lines_of_init [OF assms] by (simp add: bodies_split_records)

lemma MboxReader_iter_records:
  assumes "MboxReader_init file = Inr r"
  shows "MboxReader_iter parse r = emit parse (map record_body (split_records (lines_of file)))"
  using MboxReader_iter_emit [OF assms, of parse] bodies_init [OF assms] by simp

lemma sum_length_split:
  "sum_list (map length (ls :: bytes list)) =
     sum_list (map length (filter P ls)) + sum_list (map length (filter (\<lambda>l. \<not> P l) ls))"
  by (induction ls) auto

lemma length_as_lines: "length bs = sum_list (map length (lines_of bs))"
proof -
  have "length (concat (lines_of bs)) = sum_list (map length (lines_of bs))"
    by (simp add: length_concat)
  then show ?thesis by (simp add: concat_lines_of)
qed

lemma split_records_reassemble:
  "concat (map record_with_delimiter (split_records ls)) = concat ls"
proof (induction ls rule: split_records.induct)
  case 1
  show ?case by simp
next
  case (2 s ls)
  have "concat (takeWhile (\<lambda>l. \<not> startswith l ''From '') ls) @
        concat (dropWhile (\<lambda>l. \<not> startswith l ''From '') ls) = concat ls"
    by (simp flip: concat_append)
  with 2 show ?case by simp
qed





lemma statistics_line_size:
  "statistics_line m = Inr l \<Longrightarrow> total_size_bytes l = x_sz m \<and> count l = 1"
  by (auto simp: statistics_line_def Let_def split: sum.splits)

lemma read_loop_sizes:
  "map total_size_bytes (fst (read_messages_loop msgs r)) =
     take (length (fst (read_messages_loop msgs r))) (map x_sz msgs)"
  by (induction msgs)
     (auto simp: raise_def yield_def split: sum.splits dest: statistics_line_size)

lemma read_loop_length_le: "length (fst (read_messages_loop msgs r)) \<le> length msgs"
  by (induction msgs) (auto simp: raise_def yield_def split: sum.splits)

lemma read_loop_complete:
  "snd (read_messages_loop msgs r) = None \<Longrightarrow>
     r = None \<and> length (fst (read_messages_loop msgs r)) = length msgs"
  by (induction msgs) (auto simp: raise_def yield_def split: sum.splits)

lemma read_messages_unfold:
  "read_messages parse reader =
     read_messages_loop (fst (MboxReader_iter parse reader)) (snd (MboxReader_iter parse reader))"
  by (simp add: read_messages_def split: prod.splits)

lemma sum_list_take_le:
  "(\<And>x. x \<in> set xs \<Longrightarrow> (0::int) \<le> x) \<Longrightarrow> sum_list (take k xs) \<le> sum_list xs"
proof -
  assume nn: "\<And>x. x \<in> set xs \<Longrightarrow> (0::int) \<le> x"
  have "sum_list xs = sum_list (take k xs) + sum_list (drop k xs)"
    by (metis append_take_drop_id sum_list_append)
  moreover have "0 \<le> sum_list (drop k xs)"
    by (rule sum_list_nonneg) (auto dest: in_set_dropD nn)
  ultimately show ?thesis by simp
qed

lemma record_sizes_sum:
  assumes "MboxReader_init file = Inr reader"
  shows "sum_list (map (\<lambda>rec. int (length (record_body rec))) (split_records (lines_of file))) =
           int (length file) -
           int (sum_list (map length (filter (\<lambda>l. startswith l ''From '') (lines_of file))))"
proof -
  let ?rest = "lines_of (drop (length (first_line file)) file)"
  note lo = lines_of_init [OF assms]
  from assms have sw: "startswith (first_line file) ''From ''"
    by (simp add: MboxReader_init_Inr_iff)
  have "sum_list (map (\<lambda>rec. int (length (record_body rec))) (split_records (lines_of file))) =
        int (sum_list (map length (map record_body (split_records (lines_of file)))))"
    by (simp add: comp_def sum_list_of_nat [symmetric] del: sum_list_of_nat)
  also have "\<dots> = int (sum_list (map length (bodies ?rest [])))"
    by (simp only: bodies_init [OF assms])
  also have "\<dots> = int (sum_list (map length (filter (\<lambda>l. \<not> startswith l ''From '') ?rest)))"
    by (simp add: bodies_sum)
  also have "\<dots> = int (sum_list (map length (filter (\<lambda>l. \<not> startswith l ''From '') (lines_of file))))"
  proof -
    have "filter (\<lambda>l. \<not> startswith l ''From '') (lines_of file) =
          filter (\<lambda>l. \<not> startswith l ''From '') ?rest"
      using sw by (subst lo) simp
    then show ?thesis by simp
  qed
  also have "\<dots> = int (length file) -
       int (sum_list (map length (filter (\<lambda>l. startswith l ''From '') (lines_of file))))"
    using sum_length_split [of "lines_of file" "\<lambda>l. startswith l ''From ''"]
    by (simp add: length_as_lines [of "file"])
  finally show ?thesis .
qed

lemma read_messages_sizes:
  assumes "MboxReader_init file = Inr reader"
  shows "map total_size_bytes (fst (read_messages parse reader)) =
           take (length (fst (read_messages parse reader)))
             (map (\<lambda>rec. int (length (record_body rec))) (split_records (lines_of file)))"
proof -
  let ?g = "MboxReader_iter parse reader"
  let ?B = "map record_body (split_records (lines_of file))"
  let ?k = "length (fst (read_messages parse reader))"
  have g: "?g = emit parse ?B" using assms by (rule MboxReader_iter_records)
  have "map x_sz (fst ?g) = map (\<lambda>b. int (length b)) (map raw (fst ?g))"
    by (simp add: g emit_x_sz comp_def)
  also have "\<dots> = map (\<lambda>b. int (length b)) (take (length (fst ?g)) ?B)"
    by (simp only: g emit_raw)
  finally have x: "map x_sz (fst ?g) =
      take (length (fst ?g)) (map (\<lambda>rec. int (length (record_body rec))) (split_records (lines_of file)))"
    by (simp add: take_map comp_def)
  have k: "?k \<le> length (fst ?g)"
    by (simp add: read_messages_unfold read_loop_length_le)
  have "map total_size_bytes (fst (read_messages parse reader)) = take ?k (map x_sz (fst ?g))"
    by (simp add: read_messages_unfold read_loop_sizes)
  then show ?thesis using k by (simp add: x min_def)
qed

lemma read_messages_complete:
  assumes "MboxReader_init file = Inr reader" and "snd (read_messages parse reader) = None"
  shows "length (fst (read_messages parse reader)) = length (split_records (lines_of file))"
proof -
  let ?g = "MboxReader_iter parse reader"
  let ?B = "map record_body (split_records (lines_of file))"
  have g: "?g = emit parse ?B" using assms(1) by (rule MboxReader_iter_records)
  have "snd (read_messages_loop (fst ?g) (snd ?g)) = None"
    using assms(2) by (simp only: read_messages_unfold)
  then have rc: "snd ?g = None \<and>
      length (fst (read_messages_loop (fst ?g) (snd ?g))) = length (fst ?g)"
    by (rule read_loop_complete)
  from rc have sg: "snd ?g = None" ..
  from rc have "length (fst (read_messages_loop (fst ?g) (snd ?g))) = length (fst ?g)" ..
  then have l: "length (fst (read_messages parse reader)) = length (fst ?g)"
    unfolding read_messages_unfold .
  from sg have "snd (emit parse ?B) = None" by (simp only: g)
  then have "length (fst (emit parse ?B)) = length ?B" by (rule emit_complete)
  then have "length (fst ?g) = length ?B" by (simp only: g)
  with l show ?thesis by simp
qed

lemmas run_simps =
  read_messages_def MboxReader_iter_def MboxReader_next_emit lines_of_nonempty startswith_def
  message_from_bytes_def no_headers_def sample_parse_def malformed_def
  yield_def raise_def stop_def statistics_line_def Let_def str_or_None_def

lemma statistics_line_Inr:
  assumes "headers msg ''From'' = Inr f" and "headers msg ''To'' = Inr t"
    and "headers msg ''X-Gmail-Labels'' = Inr l"
  shows "statistics_line msg =
           Inr \<lparr>count = 1, total_size_bytes = x_sz msg,
                from_addr = extract_address (str_or_None f),
                labels = join '','' (sort (filter_gmail_labels (str_or_None l)))\<rparr>"
  using assms by (simp add: statistics_line_def Let_def)

lemma statistics_line_Inr_iff:
  "(\<exists>line. statistics_line msg = Inr line) \<longleftrightarrow>
     (\<exists>f. headers msg ''From'' = Inr f) \<and> (\<exists>t. headers msg ''To'' = Inr t) \<and>
     (\<exists>l. headers msg ''X-Gmail-Labels'' = Inr l)"
  by (auto simp: statistics_line_def Let_def split: sum.splits)

section \<open>Claims about the boundary scanner\<close>

text \<open>
  C1 (as amended). When the reader is constructed and \<open>read_messages\<close> runs to its end,
  that is, neither the parser nor a header lookup raises, the \<open>total_size_bytes\<close> of
  the raw records add up to the byte length of the source minus the byte length of all
  its lines that start with \<open>From \<close>: the scanner drops every delimiter line, the first
  one in \<open>__init__\<close> and the later ones in \<open>__next__\<close>. In every run the records
  yielded have the sizes of the bodies of the first records of the source, so that their
  sum is at most that difference.
\<close>

theorem sizes_sum_excludes_sentinel_lines:
  assumes "MboxReader_init file = Inr reader"
  shows "(snd (read_messages parse reader) = None \<longrightarrow>
            sum_list (map total_size_bytes (fst (read_messages parse reader))) =
              int (length file) -
              int (sum_list (map length (filter (\<lambda>l. startswith l ''From '') (lines_of file))))) \<and>
         map total_size_bytes (fst (read_messages parse reader)) =
           take (length (fst (read_messages parse reader)))
             (map (\<lambda>rec. int (length (record_body rec))) (split_records (lines_of file))) \<and>
         sum_list (map total_size_bytes (fst (read_messages parse reader))) \<le>
           int (length file) -
           int (sum_list (map length (filter (\<lambda>l. startswith l ''From '') (lines_of file))))"
proof (intro conjI impI)
  let ?S = "map (\<lambda>rec. int (length (record_body rec))) (split_records (lines_of file))"
  let ?k = "length (fst (read_messages parse reader))"
  show pre: "map total_size_bytes (fst (read_messages parse reader)) = take ?k ?S"
    using assms by (rule read_messages_sizes)
  have total: "sum_list ?S = int (length file) -
      int (sum_list (map length (filter (\<lambda>l. startswith l ''From '') (lines_of file))))"
    using assms by (rule record_sizes_sum)
  have "sum_list (take ?k ?S) \<le> sum_list ?S"
    by (rule sum_list_take_le) auto
  then show "sum_list (map total_size_bytes (fst (read_messages parse reader))) \<le>
           int (length file) -
           int (sum_list (map length (filter (\<lambda>l. startswith l ''From '') (lines_of file))))"
    by (simp only: pre total)
  assume "snd (read_messages parse reader) = None"
  then have "?k = length ?S" using read_messages_complete [OF assms] by simp
  then have "take ?k ?S = ?S" by simp
  then show "sum_list (map total_size_bytes (fst (read_messages parse reader))) =
              int (length file) -
              int (sum_list (map length (filter (\<lambda>l. startswith l ''From '') (lines_of file))))"
    by (simp only: pre total)
qed

text \<open>
  The amended C1 on a source of 19 bytes with two delimiter lines of 7 bytes each, where
  the run reaches its end, and on a source of 27 bytes whose second record has a
  \<open>From\<close> header that the library fails to parse, where the run ends with
  \<open>IndexError\<close> after one record of size 3.
\<close>

theorem sizes_sum_witness:
  "MboxReader_init ''From a\<newline>x\<newline>From b\<newline>yy\<newline>'' =
     Inr \<lparr>handle = \<lparr>content = ''From a\<newline>x\<newline>From b\<newline>yy\<newline>'', offset = 7\<rparr>, size = 19\<rparr> \<and>
   snd (read_messages no_headers
     \<lparr>handle = \<lparr>content = ''From a\<newline>x\<newline>From b\<newline>yy\<newline>'', offset = 7\<rparr>, size = 19\<rparr>) = None \<and>
   sum_list (map total_size_bytes (fst (read_messages no_headers
     \<lparr>handle = \<lparr>content = ''From a\<newline>x\<newline>From b\<newline>yy\<newline>'', offset = 7\<rparr>, size = 19\<rparr>))) = 19 - 14 \<and>
   MboxReader_init ''From x\<newline>ok\<newline>From y\<newline>From: a@\<newline>\<newline>'' =
     Inr \<lparr>handle = \<lparr>content = ''From x\<newline>ok\<newline>From y\<newline>From: a@\<newline>\<newline>'', offset = 7\<rparr>, size = 27\<rparr> \<and>
   snd (read_messages sample_parse
     \<lparr>handle = \<lparr>content = ''From x\<newline>ok\<newline>From y\<newline>From: a@\<newline>\<newline>'', offset = 7\<rparr>, size = 27\<rparr>) =
     Some IndexError \<and>
   map total_size_bytes (fst (read_messages sample_parse
     \<lparr>handle = \<lparr>content = ''From x\<newline>ok\<newline>From y\<newline>From: a@\<newline>\<newline>'', offset = 7\<rparr>, size = 27\<rparr>)) = [3]"
proof -
  have i: "MboxReader_init ''From a\<newline>x\<newline>From b\<newline>yy\<newline>'' =
     Inr \<lparr>handle = \<lparr>content = ''From a\<newline>x\<newline>From b\<newline>yy\<newline>'', offset = 7\<rparr>, size = 19\<rparr>"
    by (simp add: MboxReader_init_Inr_iff startswith_def)
  have j: "MboxReader_init ''From x\<newline>ok\<newline>From y\<newline>From: a@\<newline>\<newline>'' =
     Inr \<lparr>handle = \<lparr>content = ''From x\<newline>ok\<newline>From y\<newline>From: a@\<newline>\<newline>'', offset = 7\<rparr>, size = 27\<rparr>"
    by (simp add: MboxReader_init_Inr_iff startswith_def)
  have n: "snd (read_messages no_headers
     \<lparr>handle = \<lparr>content = ''From a\<newline>x\<newline>From b\<newline>yy\<newline>'', offset = 7\<rparr>, size = 19\<rparr>) = None"
    by (simp add: run_simps)
  have e: "snd (read_messages sample_parse
     \<lparr>handle = \<lparr>content = ''From x\<newline>ok\<newline>From y\<newline>From: a@\<newline>\<newline>'', offset = 7\<rparr>, size = 27\<rparr>) =
     Some IndexError"
    by (simp add: run_simps)
  show ?thesis
    using sizes_sum_excludes_sentinel_lines [OF i, of no_headers]
      sizes_sum_excludes_sentinel_lines [OF j, of sample_parse] n e
    by (simp add: i j run_simps)
qed

text \<open>
  C1 as stated fails: the source \<open>From a\<newline>x\<newline>\<close> has 9 bytes, the run reaches its end,
  and its only record has size 2.
\<close>

theorem sizes_sum_counterexample:
  "MboxReader_init ''From a\<newline>x\<newline>'' =
     Inr \<lparr>handle = \<lparr>content = ''From a\<newline>x\<newline>'', offset = 7\<rparr>, size = 9\<rparr> \<and>
   read_messages no_headers
     \<lparr>handle = \<lparr>content = ''From a\<newline>x\<newline>'', offset = 7\<rparr>, size = 9\<rparr> =
     ([\<lparr>count = 1, total_size_bytes = 2, from_addr = ''None'', labels = ''None''\<rparr>], None) \<and>
   int (length ''From a\<newline>x\<newline>'') = 9 \<and>
   sum_list (map total_size_bytes (fst (read_messages no_headers
     \<lparr>handle = \<lparr>content = ''From a\<newline>x\<newline>'', offset = 7\<rparr>, size = 9\<rparr>))) \<noteq>
     int (length ''From a\<newline>x\<newline>'')"
  by (simp add: MboxReader_init_Inr_iff run_simps extract_address_def match_here_def
      filter_gmail_labels_def)

text \<open>
  C2 (as amended). The bytes of the records that the scanner emits are the bodies of the
  records of the source, in their order: the lines after a delimiter line up to the next
  delimiter line or the end of the source, without the leading delimiter line and
  without the next one (every new buffer starts empty). The recorded byte length
  \<open>_x_sz\<close> is the length of that body. When the scanner reaches the end of the source
  it has emitted all of them, and it does so whenever the parser raises on no record.
  With their delimiter lines the records make up the whole source.
\<close>

theorem record_size_excludes_delimiters:
  assumes "MboxReader_init file = Inr reader"
  shows "map raw (fst (MboxReader_iter parse reader)) =
           take (length (fst (MboxReader_iter parse reader)))
             (map record_body (split_records (lines_of file))) \<and>
         map x_sz (fst (MboxReader_iter parse reader)) =
           take (length (fst (MboxReader_iter parse reader)))
             (map (\<lambda>rec. int (length (record_body rec))) (split_records (lines_of file))) \<and>
         (snd (MboxReader_iter parse reader) = None \<longrightarrow>
            map raw (fst (MboxReader_iter parse reader)) =
              map record_body (split_records (lines_of file)) \<and>
            map x_sz (fst (MboxReader_iter parse reader)) =
              map (\<lambda>rec. int (length (record_body rec))) (split_records (lines_of file))) \<and>
         ((\<forall>b. \<exists>hs. parse b = Inr hs) \<longrightarrow> snd (MboxReader_iter parse reader) = None) \<and>
         concat (map record_with_delimiter (split_records (lines_of file))) = file"
proof -
  let ?g = "MboxReader_iter parse reader"
  let ?B = "map record_body (split_records (lines_of file))"
  have g: "?g = emit parse ?B" using assms by (rule MboxReader_iter_records)
  have r: "map raw (fst ?g) = take (length (fst ?g)) ?B"
    by (simp only: g emit_raw)
  have "map x_sz (fst ?g) = map (\<lambda>b. int (length b)) (map raw (fst ?g))"
    by (simp add: g emit_x_sz comp_def)
  also have "\<dots> = map (\<lambda>b. int (length b)) (take (length (fst ?g)) ?B)"
    by (simp only: r)
  finally have x: "map x_sz (fst ?g) =
      take (length (fst ?g)) (map (\<lambda>rec. int (length (record_body rec))) (split_records (lines_of file)))"
    by (simp add: take_map comp_def)
  have c: "length (fst ?g) = length (split_records (lines_of file))" if "snd ?g = None"
    using that emit_complete [of parse ?B] by (simp add: g)
  have t: "snd ?g = None" if "\<forall>b. \<exists>hs. parse b = Inr hs"
    using that emit_total [of parse ?B] by (simp add: g)
  show ?thesis
  proof (intro conjI impI)
    show "map raw (fst ?g) = take (length (fst ?g)) ?B" by (rule r)
    show "map x_sz (fst ?g) =
      take (length (fst ?g)) (map (\<lambda>rec. int (length (record_body rec))) (split_records (lines_of file)))"
      by (rule x)
    show "concat (map record_with_delimiter (split_records (lines_of file))) = file"
      by (simp add: split_records_reassemble concat_lines_of)
  next
    assume "snd ?g = None"
    then show "map raw (fst ?g) = ?B" using r c by simp
  next
    assume "snd ?g = None"
    then show "map x_sz (fst ?g) =
        map (\<lambda>rec. int (length (record_body rec))) (split_records (lines_of file))"
      using x c by simp
  next
    assume "\<forall>b. \<exists>hs. parse b = Inr hs"
    then show "snd ?g = None" by (rule t)
  qed
qed

text \<open>
  The amended C2 on a source with two records, of 2 and 3 body bytes, and on a source on
  whose second record the parser raises, after the first record of 2 bytes.
\<close>

theorem record_size_witness:
  "MboxReader_init ''From a\<newline>x\<newline>From b\<newline>yy\<newline>'' =
     Inr \<lparr>handle = \<lparr>content = ''From a\<newline>x\<newline>From b\<newline>yy\<newline>'', offset = 7\<rparr>, size = 19\<rparr> \<and>
   snd (MboxReader_iter no_headers
     \<lparr>handle = \<lparr>content = ''From a\<newline>x\<newline>From b\<newline>yy\<newline>'', offset = 7\<rparr>, size = 19\<rparr>) = None \<and>
   map x_sz (fst (MboxReader_iter no_headers
     \<lparr>handle = \<lparr>content = ''From a\<newline>x\<newline>From b\<newline>yy\<newline>'', offset = 7\<rparr>, size = 19\<rparr>)) = [2, 3] \<and>
   map raw (fst (MboxReader_iter no_headers
     \<lparr>handle = \<lparr>content = ''From a\<newline>x\<newline>From b\<newline>yy\<newline>'', offset = 7\<rparr>, size = 19\<rparr>)) =
     [''x\<newline>'', ''yy\<newline>''] \<and>
   MboxReader_init ''From a\<newline>x\<newline>From b\<newline>Content-Type: text/plain; charset*\<newline>\<newline>body\<newline>'' =
     Inr \<lparr>handle = \<lparr>content =
            ''From a\<newline>x\<newline>From b\<newline>Content-Type: text/plain; charset*\<newline>\<newline>body\<newline>'',
            offset = 7\<rparr>, size = 57\<rparr> \<and>
   snd (MboxReader_iter sample_parse
     \<lparr>handle = \<lparr>content =
        ''From a\<newline>x\<newline>From b\<newline>Content-Type: text/plain; charset*\<newline>\<newline>body\<newline>'',
        offset = 7\<rparr>, size = 57\<rparr>) = Some IndexError \<and>
   map x_sz (fst (MboxReader_iter sample_parse
     \<lparr>handle = \<lparr>content =
        ''From a\<newline>x\<newline>From b\<newline>Content-Type: text/plain; charset*\<newline>\<newline>body\<newline>'',
        offset = 7\<rparr>, size = 57\<rparr>)) = [2]"
proof -
  have i: "MboxReader_init ''From a\<newline>x\<newline>From b\<newline>yy\<newline>'' =
     Inr \<lparr>handle = \<lparr>content = ''From a\<newline>x\<newline>From b\<newline>yy\<newline>'', offset = 7\<rparr>, size = 19\<rparr>"
    by (simp add: MboxReader_init_Inr_iff startswith_def)
  have j: "MboxReader_init ''From a\<newline>x\<newline>From b\<newline>Content-Type: text/plain; charset*\<newline>\<newline>body\<newline>'' =
     Inr \<lparr>handle = \<lparr>content =
            ''From a\<newline>x\<newline>From b\<newline>Content-Type: text/plain; charset*\<newline>\<newline>body\<newline>'',
            offset = 7\<rparr>, size = 57\<rparr>"
    by (simp add: MboxReader_init_Inr_iff startswith_def)
  have t: "\<forall>b. \<exists>hs. no_headers b = Inr hs" by (simp add: no_headers_def)
  have 1: "snd (MboxReader_iter no_headers
       \<lparr>handle = \<lparr>content = ''From a\<newline>x\<newline>From b\<newline>yy\<newline>'', offset = 7\<rparr>, size = 19\<rparr>) = None \<and>
     map x_sz (fst (MboxReader_iter no_headers
       \<lparr>handle = \<lparr>content = ''From a\<newline>x\<newline>From b\<newline>yy\<newline>'', offset = 7\<rparr>, size = 19\<rparr>)) = [2, 3] \<and>
     map raw (fst (MboxReader_iter no_headers
       \<lparr>handle = \<lparr>content = ''From a\<newline>x\<newline>From b\<newline>yy\<newline>'', offset = 7\<rparr>, size = 19\<rparr>)) =
       [''x\<newline>'', ''yy\<newline>'']"
    using record_size_excludes_delimiters [OF i, of no_headers] t
    by (auto simp add: lines_of_nonempty startswith_def)
  have e: "snd (MboxReader_iter sample_parse
     \<lparr>handle = \<lparr>content =
        ''From a\<newline>x\<newline>From b\<newline>Content-Type: text/plain; charset*\<newline>\<newline>body\<newline>'',
        offset = 7\<rparr>, size = 57\<rparr>) = Some IndexError"
    and l: "length (fst (MboxReader_iter sample_parse
     \<lparr>handle = \<lparr>content =
        ''From a\<newline>x\<newline>From b\<newline>Content-Type: text/plain; charset*\<newline>\<newline>body\<newline>'',
        offset = 7\<rparr>, size = 57\<rparr>)) = 1"
    by (simp_all add: run_simps)
  have 2: "map x_sz (fst (MboxReader_iter sample_parse
     \<lparr>handle = \<lparr>content =
        ''From a\<newline>x\<newline>From b\<newline>Content-Type: text/plain; charset*\<newline>\<newline>body\<newline>'',
        offset = 7\<rparr>, size = 57\<rparr>)) = [2]"
    using record_size_excludes_delimiters [OF j, of sample_parse]
    by (simp add: l lines_of_nonempty startswith_def)
  from i j 1 e 2 show ?thesis by simp
qed

text \<open>
  C2 as stated fails: in the source \<open>From a\<newline>x\<newline>\<close> the record with its leading delimiter
  line has 9 bytes, and the recorded length is 2.
\<close>

theorem record_size_counterexample:
  "MboxReader_init ''From a\<newline>x\<newline>'' =
     Inr \<lparr>handle = \<lparr>content = ''From a\<newline>x\<newline>'', offset = 7\<rparr>, size = 9\<rparr> \<and>
   map x_sz (fst (MboxReader_iter no_headers
     \<lparr>handle = \<lparr>content = ''From a\<newline>x\<newline>'', offset = 7\<rparr>, size = 9\<rparr>)) = [2] \<and>
   map record_with_delimiter (split_records (lines_of ''From a\<newline>x\<newline>'')) = [''From a\<newline>x\<newline>''] \<and>
   int (length ''From a\<newline>x\<newline>'') = 9"
  by (simp add: MboxReader_init_Inr_iff run_simps)



text \<open>
  C4 (as amended). Constructing the reader fails with the assertion error, before any
  record is produced, if and only if the first line of the source does not start with
  the five bytes \<open>From \<close>; nothing has to follow the prefix. The pipeline \<open>main\<close> then
  returns that error and no record. An empty source is such an error.
\<close>

theorem init_fails_iff_no_sentinel_prefix:
  "(MboxReader_init file = Inl AssertionError) = (\<not> startswith (first_line file) ''From '') \<and>
   (\<exists>r. MboxReader_init file = Inr r) = startswith (first_line file) ''From '' \<and>
   (main parse file agg srt = Inl AssertionError) = (\<not> startswith (first_line file) ''From '') \<and>
   MboxReader_init [] = Inl AssertionError"
  by (auto simp: MboxReader_init_def main_def readline_def Let_def startswith_def)

text \<open>The amended C4 at a source that starts with another line and at a well-formed one.\<close>

theorem init_fails_witness:
  "MboxReader_init ''hello\<newline>From a\<newline>'' = Inl AssertionError \<and>
   main no_headers ''hello\<newline>From a\<newline>'' False False = Inl AssertionError \<and>
   (\<exists>r. MboxReader_init ''From a\<newline>'' = Inr r)"
  using init_fails_iff_no_sentinel_prefix [of "''hello\<newline>From a\<newline>''" no_headers False False]
    init_fails_iff_no_sentinel_prefix [of "''From a\<newline>''" no_headers False False]
  by (simp add: startswith_def)

text \<open>
  C4 as stated fails: the source \<open>From \<close> has no token after the prefix, and the reader
  is constructed.
\<close>

theorem init_token_counterexample:
  "MboxReader_init ''From '' = Inr \<lparr>handle = \<lparr>content = ''From '', offset = 5\<rparr>, size = 5\<rparr> \<and>
   \<not> sentinel_with_token (first_line ''From '')"
  by (simp add: MboxReader_init_Inr_iff startswith_def sentinel_with_token_def)

section \<open>Properties of the aggregator\<close>

lemma set_first_occurrences: "set (first_occurrences xs) = set xs"
  by (induction xs) auto

lemma distinct_first_occurrences: "distinct (first_occurrences xs)"
  by (induction xs) (auto simp: distinct_removeAll)

lemma keys_dict_add:
  "map fst (dict_add d k v) = (if k \<in> fst ` set d then map fst d else map fst d @ [k])"
  by (induction d k v rule: dict_add.induct) (auto simp: image_iff)

lemma sum_dict_add: "sum_list (map snd (dict_add d k v)) = sum_list (map snd d) + v"
  by (induction d k v rule: dict_add.induct) auto

lemma dict_get_dict_add:
  "dict_get (dict_add d k v) k' = (if k' = k then dict_get d k + v else dict_get d k')"
  by (induction d k v rule: dict_add.induct) (auto simp: dict_get_def)

lemma filter_removeAll_new:
  "filter (\<lambda>y. y \<noteq> k \<and> y \<notin> K) xs = filter (\<lambda>y. y \<notin> K) (removeAll k xs)"
  by (induction xs) auto

lemma filter_removeAll_old:
  "k \<in> K \<Longrightarrow> filter (\<lambda>y. y \<notin> K) (removeAll k xs) = filter (\<lambda>y. y \<notin> K) xs"
  by (induction xs) auto

lemma agg_loop_keys:
  "map fst (fst (agg_loop ms sizes counts)) =
     map fst sizes @ filter (\<lambda>k. k \<notin> fst ` set sizes) (first_occurrences (map key ms))"
proof (induction ms arbitrary: sizes counts)
  case Nil
  show ?case by simp
next
  case (Cons m ms)
  show ?case
  proof (cases "key m \<in> fst ` set sizes")
    case True
    then have "fst ` set (dict_add sizes (key m) (total_size_bytes m)) = fst ` set sizes"
      using keys_dict_add [of sizes "key m" "total_size_bytes m"]
      by (metis list.set_map)
    with True show ?thesis
      by (simp add: Cons.IH Let_def keys_dict_add filter_removeAll_old)
  next
    case False
    then have "fst ` set (dict_add sizes (key m) (total_size_bytes m)) = insert (key m) (fst ` set sizes)"
      using keys_dict_add [of sizes "key m" "total_size_bytes m"]
      by (metis Un_insert_right append_Nil2 list.set_map list.simps(15) set_append)
    with False show ?thesis
      by (simp add: Cons.IH Let_def keys_dict_add filter_removeAll_new)
  qed
qed

lemma agg_loop_same_keys:
  "map fst sizes = map fst counts \<Longrightarrow>
   map fst (snd (agg_loop ms sizes counts)) = map fst (fst (agg_loop ms sizes counts))"
proof (induction ms arbitrary: sizes counts)
  case Nil
  then show ?case by simp
next
  case (Cons m ms)
  from Cons.prems have "fst ` set sizes = fst ` set counts"
    by (metis list.set_map)
  with Cons.prems have "map fst (dict_add sizes (key m) (total_size_bytes m)) =
                        map fst (dict_add counts (key m) (count m))"
    by (simp add: keys_dict_add)
  then show ?case by (simp add: Cons.IH Let_def)
qed

lemma agg_loop_sizes_sum:
  "sum_list (map snd (fst (agg_loop ms sizes counts))) =
     sum_list (map snd sizes) + sum_list (map total_size_bytes ms)"
  by (induction ms arbitrary: sizes counts) (auto simp: Let_def sum_dict_add)

lemma agg_loop_counts_sum:
  "sum_list (map snd (snd (agg_loop ms sizes counts))) =
     sum_list (map snd counts) + sum_list (map count ms)"
  by (induction ms arbitrary: sizes counts) (auto simp: Let_def sum_dict_add)

lemma agg_loop_sizes_get:
  "dict_get (fst (agg_loop ms sizes counts)) k =
     dict_get sizes k + sum_list (map total_size_bytes (filter (\<lambda>m. key m = k) ms))"
  by (induction ms arbitrary: sizes counts) (auto simp: Let_def dict_get_dict_add)

lemma agg_loop_counts_get:
  "dict_get (snd (agg_loop ms sizes counts)) k =
     dict_get counts k + sum_list (map count (filter (\<lambda>m. key m = k) ms))"
  by (induction ms arbitrary: sizes counts) (auto simp: Let_def dict_get_dict_add)

lemma dict_get_distinct:
  "distinct (map fst d) \<Longrightarrow> (k, v) \<in> set d \<Longrightarrow> dict_get d k = v"
  by (simp add: dict_get_def)

lemma map_dict_get_keys:
  "distinct (map fst d) \<Longrightarrow> map (dict_get d) (map fst d) = map snd d"
  by (auto simp: dict_get_distinct)

lemma agg_stats_unfold:
  "agg_stats ms =
     map (\<lambda>(k, sz). \<lparr>count = dict_get (snd (agg_loop ms [] [])) k, total_size_bytes = sz,
                      from_addr = fst k, labels = snd k\<rparr>) (fst (agg_loop ms [] []))"
  by (simp add: agg_stats_def split: prod.splits)

lemma agg_stats_keys: "map key (agg_stats ms) = first_occurrences (map key ms)"
proof -
  have "map key (agg_stats ms) = map fst (fst (agg_loop ms [] []))"
    by (simp add: agg_stats_unfold key_def case_prod_unfold)
  then show ?thesis by (simp add: agg_loop_keys)
qed

lemma agg_stats_sizes: "map total_size_bytes (agg_stats ms) = map snd (fst (agg_loop ms [] []))"
  by (simp add: agg_stats_unfold case_prod_unfold)

lemma agg_stats_counts: "map count (agg_stats ms) = map snd (snd (agg_loop ms [] []))"
proof -
  let ?s = "fst (agg_loop ms [] [])" and ?c = "snd (agg_loop ms [] [])"
  have same: "map fst ?c = map fst ?s" by (simp add: agg_loop_same_keys)
  have "distinct (map fst ?s)"
    by (simp add: agg_loop_keys distinct_first_occurrences)
  with same have d: "distinct (map fst ?c)" by simp
  have "map count (agg_stats ms) = map (dict_get ?c) (map fst ?s)"
    by (simp add: agg_stats_unfold case_prod_unfold)
  also have "\<dots> = map (dict_get ?c) (map fst ?c)" by (simp only: same)
  also have "\<dots> = map snd ?c" using d by (rule map_dict_get_keys)
  finally show ?thesis .
qed


lemma dict_get_Nil: "dict_get [] k = 0"
  by (simp add: dict_get_def)

lemma agg_stats_member:
  assumes "r \<in> set (agg_stats ms)"
  shows "count r = sum_list (map count (filter (\<lambda>m. key m = key r) ms))"
    and "total_size_bytes r = sum_list (map total_size_bytes (filter (\<lambda>m. key m = key r) ms))"
proof -
  let ?s = "fst (agg_loop ms [] [])" and ?c = "snd (agg_loop ms [] [])"
  from assms obtain k sz where ks: "(k, sz) \<in> set ?s"
    and r: "r = \<lparr>count = dict_get ?c k, total_size_bytes = sz, from_addr = fst k, labels = snd k\<rparr>"
    by (auto simp: agg_stats_unfold)
  from r have kr: "key r = k" by (simp add: key_def)
  have "distinct (map fst ?s)"
    by (simp add: agg_loop_keys distinct_first_occurrences)
  then have "dict_get ?s k = sz" using ks by (rule dict_get_distinct)
  then show "total_size_bytes r = sum_list (map total_size_bytes (filter (\<lambda>m. key m = key r) ms))"
    using r kr by (simp add: agg_loop_sizes_get dict_get_Nil)
  show "count r = sum_list (map count (filter (\<lambda>m. key m = key r) ms))"
    using r kr by (simp add: agg_loop_counts_get dict_get_Nil)
qed

lemma first_occurrences_order:
  "sorted_wrt (\<lambda>a b. length (takeWhile (\<lambda>z. z \<noteq> a) ks) < length (takeWhile (\<lambda>z. z \<noteq> b) ks))
     (first_occurrences ks)"
proof (induction ks)
  case Nil
  show ?case by simp
next
  case (Cons x xs)
  let ?P = "\<lambda>a b. length (takeWhile (\<lambda>z. z \<noteq> a) xs) < length (takeWhile (\<lambda>z. z \<noteq> b) xs)"
  let ?Q = "\<lambda>a b. length (takeWhile (\<lambda>z. z \<noteq> a) (x # xs)) < length (takeWhile (\<lambda>z. z \<noteq> b) (x # xs))"
  let ?ys = "filter (\<lambda>y. y \<noteq> x) (first_occurrences xs)"
  have "removeAll x zs = filter (\<lambda>y. y \<noteq> x) zs" for zs
    by (induction zs) auto
  then have ra: "removeAll x (first_occurrences xs) = ?ys" .
  have "sorted_wrt ?P ?ys"
    using Cons.IH by (rule sorted_wrt_filter)
  then have "sorted_wrt ?Q ?ys"
    by (rule sorted_wrt_mono_rel [rotated]) auto
  moreover have "\<forall>y \<in> set ?ys. ?Q x y" by auto
  ultimately show ?case by (simp add: ra)
qed

section \<open>Claims about the aggregator\<close>

text \<open>
  C3. For every finite input sequence, \<open>agg_stats\<close> produces exactly one record per
  distinct \<open>(from_addr, labels)\<close> pair of the input: the keys of the output are
  distinct and are the keys of the input. The sum of \<open>count\<close> and the sum of
  \<open>total_size_bytes\<close> over the output equal the sums over the input, and every
  output record carries the sums over the input records that share its key.
\<close>

theorem agg_stats_conserves:
  "distinct (map key (agg_stats ms)) \<and>
   set (map key (agg_stats ms)) = set (map key ms) \<and>
   sum_list (map count (agg_stats ms)) = sum_list (map count ms) \<and>
   sum_list (map total_size_bytes (agg_stats ms)) = sum_list (map total_size_bytes ms) \<and>
   (\<forall>r \<in> set (agg_stats ms).
      count r = sum_list (map count (filter (\<lambda>m. key m = key r) ms)) \<and>
      total_size_bytes r = sum_list (map total_size_bytes (filter (\<lambda>m. key m = key r) ms)))"
proof (intro conjI ballI)
  show "distinct (map key (agg_stats ms))"
    by (simp only: agg_stats_keys distinct_first_occurrences)
  show "set (map key (agg_stats ms)) = set (map key ms)"
    by (simp only: agg_stats_keys set_first_occurrences)
  show "sum_list (map count (agg_stats ms)) = sum_list (map count ms)"
    by (simp add: agg_stats_counts agg_loop_counts_sum)
  show "sum_list (map total_size_bytes (agg_stats ms)) = sum_list (map total_size_bytes ms)"
    by (simp add: agg_stats_sizes agg_loop_sizes_sum)
next
  fix r assume "r \<in> set (agg_stats ms)"
  then show "count r = sum_list (map count (filter (\<lambda>m. key m = key r) ms))"
    by (rule agg_stats_member)
next
  fix r assume "r \<in> set (agg_stats ms)"
  then show "total_size_bytes r = sum_list (map total_size_bytes (filter (\<lambda>m. key m = key r) ms))"
    by (rule agg_stats_member)
qed

text \<open>C3 on the three messages of the end-to-end scenario, as the aggregator receives them.\<close>

theorem agg_stats_conserves_witness:
  "agg_stats
     [\<lparr>count = 1, total_size_bytes = 100, from_addr = ''a@x.com'', labels = []\<rparr>,
      \<lparr>count = 1, total_size_bytes = 200, from_addr = ''a@x.com'', labels = ''Work''\<rparr>,
      \<lparr>count = 1, total_size_bytes = 300, from_addr = ''a@x.com'', labels = ''Work''\<rparr>] =
     [\<lparr>count = 1, total_size_bytes = 100, from_addr = ''a@x.com'', labels = []\<rparr>,
      \<lparr>count = 2, total_size_bytes = 500, from_addr = ''a@x.com'', labels = ''Work''\<rparr>] \<and>
   sum_list (map count (agg_stats
     [\<lparr>count = 1, total_size_bytes = 100, from_addr = ''a@x.com'', labels = []\<rparr>,
      \<lparr>count = 1, total_size_bytes = 200, from_addr = ''a@x.com'', labels = ''Work''\<rparr>,
      \<lparr>count = 1, total_size_bytes = 300, from_addr = ''a@x.com'', labels = ''Work''\<rparr>])) = 3 \<and>
   sum_list (map total_size_bytes (agg_stats
     [\<lparr>count = 1, total_size_bytes = 100, from_addr = ''a@x.com'', labels = []\<rparr>,
      \<lparr>count = 1, total_size_bytes = 200, from_addr = ''a@x.com'', labels = ''Work''\<rparr>,
      \<lparr>count = 1, total_size_bytes = 300, from_addr = ''a@x.com'', labels = ''Work''\<rparr>])) = 600"
  using agg_stats_conserves
    [of "[\<lparr>count = 1, total_size_bytes = 100, from_addr = ''a@x.com'', labels = []\<rparr>,
      \<lparr>count = 1, total_size_bytes = 200, from_addr = ''a@x.com'', labels = ''Work''\<rparr>,
      \<lparr>count = 1, total_size_bytes = 300, from_addr = ''a@x.com'', labels = ''Work''\<rparr>]"]
  by (simp add: agg_stats_def key_def dict_get_def Let_def)

text \<open>
  C10. \<open>agg_stats\<close> yields its records in the order in which each distinct key occurs
  first in the input: the keys of the output are the first occurrences of the keys of
  the input, so a key whose first occurrence is earlier in the input comes earlier in the
  output (the length of the prefix before the first occurrence is its position).
\<close>

theorem agg_stats_first_occurrence_order:
  "map key (agg_stats ms) = first_occurrences (map key ms) \<and>
   sorted_wrt (\<lambda>a b. length (takeWhile (\<lambda>k. k \<noteq> a) (map key ms))
                     < length (takeWhile (\<lambda>k. k \<noteq> b) (map key ms)))
     (map key (agg_stats ms))"
  using first_occurrences_order [of "map key ms"] by (simp add: agg_stats_keys)

section \<open>Properties of the normalizers\<close>

lemma filter_loop_filter:
  "filter_loop ls acc =
     acc @ filter (\<lambda>t. t \<notin> {''Inbox'', ''Important'', ''Opened''} \<and> \<not> startswith t ''Category '') ls"
  by (induction ls acc rule: filter_loop.induct) auto

lemma split_on_nonempty: "split_on sep s \<noteq> []"
  by (induction s) (auto split: list.splits)

lemma join_Cons: "ts \<noteq> [] \<Longrightarrow> join sep (t # ts) = t @ sep @ join sep ts"
  by (cases ts) auto

lemma join_split_on: "join [sep] (split_on sep s) = s"
proof (induction s)
  case Nil
  show ?case by simp
next
  case (Cons c s)
  show ?case
  proof (cases "c = sep")
    case True
    then show ?thesis using Cons by (simp add: join_Cons split_on_nonempty)
  next
    case False
    obtain t ts where ts: "split_on sep s = t # ts"
      using split_on_nonempty [of sep s] by (cases "split_on sep s") auto
    then show ?thesis using Cons False by (cases ts) auto
  qed
qed

lemma split_on_no_sep: "t \<in> set (split_on sep s) \<Longrightarrow> sep \<notin> set t"
  by (induction s arbitrary: t) (auto split: if_splits list.splits)

lemma extract_address_None: "extract_address ''None'' = ''None''"
  by (simp add: extract_address_def match_here_def)

lemma normalized_None: "join '','' (sort (filter_gmail_labels ''None'')) = ''None''"
  by (simp add: filter_gmail_labels_def startswith_def)

section \<open>Claims about the sorter, the label normalizer and absent headers\<close>

text \<open>
  C7. \<open>sort_stats\<close> returns the same multiset of records, ordered by
  \<open>total_size_bytes\<close> ascending, and it is stable: for every size, the records of
  that size are in the output in the order they have in the input. Sorting the output
  again leaves it unchanged.
\<close>

theorem sort_stats_stable_sorted:
  "mset (sort_stats ms) = mset ms \<and>
   sorted (map total_size_bytes (sort_stats ms)) \<and>
   (\<forall>k. filter (\<lambda>r. total_size_bytes r = k) (sort_stats ms) =
        filter (\<lambda>r. total_size_bytes r = k) ms) \<and>
   sort_stats (sort_stats ms) = sort_stats ms"
proof (intro conjI allI)
  show "mset (sort_stats ms) = mset ms" by (simp add: sort_stats_def)
  show s: "sorted (map total_size_bytes (sort_stats ms))"
    by (simp add: sort_stats_def) 
  show "filter (\<lambda>r. total_size_bytes r = k) (sort_stats ms) =
        filter (\<lambda>r. total_size_bytes r = k) ms" for k
    by (simp add: sort_stats_def sort_key_stable)
  show "sort_stats (sort_stats ms) = sort_stats ms"
    using s by (simp add: sort_stats_def sorted_sort_id sort_key_id_if_sorted)
qed

text \<open>
  C5. The normalized label string of a label header \<open>s\<close> is: the tokens of \<open>s\<close>
  between the commas (joined with commas they give \<open>s\<close> back), without the tokens
  equal to \<open>Inbox\<close>, \<open>Important\<close> or \<open>Opened\<close> and those starting with
  \<open>Category \<close>, sorted in the lexicographic order of strings, joined with commas; it
  is the \<open>labels\<close> field of the record of a message with that label header. Sorting
  keeps the multiset of the tokens, so duplicates are preserved.
\<close>

theorem labels_normalized:
  "filter_gmail_labels s =
     filter (\<lambda>t. t \<notin> {''Inbox'', ''Important'', ''Opened''} \<and> \<not> startswith t ''Category '')
       (split_on CHR '','' s) \<and>
   join '','' (split_on CHR '','' s) = s \<and>
   sorted (sort (filter_gmail_labels s)) \<and>
   mset (sort (filter_gmail_labels s)) = mset (filter_gmail_labels s) \<and>
   (headers msg ''From'' = Inr f \<and> headers msg ''To'' = Inr t \<and>
    headers msg ''X-Gmail-Labels'' = Inr (Some s) \<longrightarrow>
      (\<exists>line. statistics_line msg = Inr line \<and>
         labels line =
           join '','' (sort (filter
             (\<lambda>t. t \<notin> {''Inbox'', ''Important'', ''Opened''} \<and> \<not> startswith t ''Category '')
             (split_on CHR '','' s))))) \<and>
   join '','' (sort (filter_gmail_labels ''Work,Work'')) = ''Work,Work'' \<and>
   join '','' (sort (filter_gmail_labels ''Inbox,Important,Category Personal,Work'')) = ''Work''"
proof (intro conjI impI)
  show f: "filter_gmail_labels s =
     filter (\<lambda>t. t \<notin> {''Inbox'', ''Important'', ''Opened''} \<and> \<not> startswith t ''Category '')
       (split_on CHR '','' s)"
    by (simp add: filter_gmail_labels_def filter_loop_filter)
  show "join '','' (split_on CHR '','' s) = s" by (rule join_split_on)
  show "sorted (sort (filter_gmail_labels s))" by simp
  show "mset (sort (filter_gmail_labels s)) = mset (filter_gmail_labels s)" by simp
  show "join '','' (sort (filter_gmail_labels ''Work,Work'')) = ''Work,Work''"
    by (simp add: filter_gmail_labels_def startswith_def)
  show "join '','' (sort (filter_gmail_labels ''Inbox,Important,Category Personal,Work'')) = ''Work''"
    by (simp add: filter_gmail_labels_def startswith_def)
next
  assume a: "headers msg ''From'' = Inr f \<and> headers msg ''To'' = Inr t \<and>
    headers msg ''X-Gmail-Labels'' = Inr (Some s)"
  then have "statistics_line msg =
           Inr \<lparr>count = 1, total_size_bytes = x_sz msg,
                from_addr = extract_address (str_or_None f),
                labels = join '','' (sort (filter_gmail_labels (str_or_None (Some s))))\<rparr>"
    by (intro statistics_line_Inr) simp_all
  then show "\<exists>line. statistics_line msg = Inr line \<and>
         labels line =
           join '','' (sort (filter
             (\<lambda>t. t \<notin> {''Inbox'', ''Important'', ''Opened''} \<and> \<not> startswith t ''Category '')
             (split_on CHR '','' s)))"
    by (simp add: str_or_None_def filter_gmail_labels_def filter_loop_filter)
qed

text \<open>C5 on a message whose label header has a duplicate and two boring labels.\<close>

theorem labels_normalized_witness:
  "(\<exists>line. statistics_line
       \<lparr>raw = [],
        headers = (\<lambda>name. if name = ''X-Gmail-Labels''
                           then Inr (Some ''Work,Inbox,Alpha,Category Social,Work'') else Inr None),
        x_sz = 0\<rparr> = Inr line \<and>
      labels line = ''Alpha,Work,Work'')"
  using labels_normalized
    [of "''Work,Inbox,Alpha,Category Social,Work''"
        "\<lparr>raw = [],
          headers = (\<lambda>name. if name = ''X-Gmail-Labels''
                             then Inr (Some ''Work,Inbox,Alpha,Category Social,Work'') else Inr None),
          x_sz = 0\<rparr>" None None]
  by (simp add: startswith_def)

text \<open>
  C8 (as amended). When none of the three header lookups of a message raises
  (\<open>From\<close>, \<open>To\<close>, \<open>X-Gmail-Labels\<close>), processing it does not fail: a message
  without a \<open>From\<close> header gets the sender \<open>None\<close> and a message without an
  \<open>X-Gmail-Labels\<close> header gets the label string \<open>None\<close>, its record has count 1
  and the size of the message, and \<open>read_messages\<close> goes on with the messages after
  it. A message has a record exactly when its three lookups return; when one of them
  raises, \<open>read_messages\<close> ends with that exception.
\<close>

theorem absent_headers_become_None:
  "(headers msg ''From'' = Inr None \<and> headers msg ''To'' = Inr t \<and>
    headers msg ''X-Gmail-Labels'' = Inr l \<longrightarrow>
      (\<exists>line. statistics_line msg = Inr line \<and> from_addr line = ''None'' \<and>
         count line = 1 \<and> total_size_bytes line = x_sz msg)) \<and>
   (headers msg ''From'' = Inr f \<and> headers msg ''To'' = Inr t \<and>
    headers msg ''X-Gmail-Labels'' = Inr None \<longrightarrow>
      (\<exists>line. statistics_line msg = Inr line \<and> labels line = ''None'' \<and>
         count line = 1 \<and> total_size_bytes line = x_sz msg)) \<and>
   (statistics_line msg = Inr line \<longrightarrow>
      read_messages_loop (msg # post) r = yield line (read_messages_loop post r)) \<and>
   (statistics_line msg = Inl e \<longrightarrow> read_messages_loop (msg # post) r = raise e) \<and>
   (\<exists>line. statistics_line msg = Inr line) =
     ((\<exists>f. headers msg ''From'' = Inr f) \<and> (\<exists>t. headers msg ''To'' = Inr t) \<and>
      (\<exists>l. headers msg ''X-Gmail-Labels'' = Inr l))"
proof (intro conjI impI)
  assume "headers msg ''From'' = Inr None \<and> headers msg ''To'' = Inr t \<and>
    headers msg ''X-Gmail-Labels'' = Inr l"
  then have "statistics_line msg =
           Inr \<lparr>count = 1, total_size_bytes = x_sz msg,
                from_addr = extract_address (str_or_None None),
                labels = join '','' (sort (filter_gmail_labels (str_or_None l)))\<rparr>"
    by (intro statistics_line_Inr) simp_all
  then show "\<exists>line. statistics_line msg = Inr line \<and> from_addr line = ''None'' \<and>
         count line = 1 \<and> total_size_bytes line = x_sz msg"
    by (simp add: str_or_None_def extract_address_None)
next
  assume "headers msg ''From'' = Inr f \<and> headers msg ''To'' = Inr t \<and>
    headers msg ''X-Gmail-Labels'' = Inr None"
  then have "statistics_line msg =
           Inr \<lparr>count = 1, total_size_bytes = x_sz msg,
                from_addr = extract_address (str_or_None f),
                labels = join '','' (sort (filter_gmail_labels (str_or_None None)))\<rparr>"
    by (intro statistics_line_Inr) simp_all
  then show "\<exists>line. statistics_line msg = Inr line \<and> labels line = ''None'' \<and>
         count line = 1 \<and> total_size_bytes line = x_sz msg"
    by (simp add: str_or_None_def normalized_None)
next
  assume "statistics_line msg = Inr line"
  then show "read_messages_loop (msg # post) r = yield line (read_messages_loop post r)"
    by simp
next
  assume "statistics_line msg = Inl e"
  then show "read_messages_loop (msg # post) r = raise e" by simp
next
  show "(\<exists>line. statistics_line msg = Inr line) =
     ((\<exists>f. headers msg ''From'' = Inr f) \<and> (\<exists>t. headers msg ''To'' = Inr t) \<and>
      (\<exists>l. headers msg ''X-Gmail-Labels'' = Inr l))"
    by (rule statistics_line_Inr_iff)
qed

text \<open>C8 on a message without any header followed by a message with a sender.\<close>

theorem absent_headers_witness:
  "read_messages_loop
     [\<lparr>raw = [], headers = (\<lambda>name. Inr None), x_sz = 0\<rparr>,
      \<lparr>raw = ''x'',
       headers = (\<lambda>name. if name = ''From'' then Inr (Some ''Jane Doe <jane@example.com>'')
                          else Inr None),
       x_sz = 1\<rparr>] None =
     ([\<lparr>count = 1, total_size_bytes = 0, from_addr = ''None'', labels = ''None''\<rparr>,
       \<lparr>count = 1, total_size_bytes = 1, from_addr = ''jane@example.com'', labels = ''None''\<rparr>],
      None)"
proof -
  let ?m = "\<lparr>raw = [], headers = (\<lambda>name. Inr None), x_sz = 0\<rparr>"
  let ?rest = "[\<lparr>raw = ''x'',
       headers = (\<lambda>name. if name = ''From'' then Inr (Some ''Jane Doe <jane@example.com>'')
                          else Inr None),
       x_sz = 1\<rparr>]"
  let ?line = "\<lparr>count = 1, total_size_bytes = 0, from_addr = ''None'', labels = ''None''\<rparr>"
  have s: "statistics_line ?m = Inr ?line"
    by (simp add: statistics_line_def Let_def str_or_None_def extract_address_None normalized_None)
  have "read_messages_loop (?m # ?rest) None = yield ?line (read_messages_loop ?rest None)"
    using absent_headers_become_None [where msg = ?m and line = ?line and post = ?rest and r = None] s
    by blast
  then show ?thesis
    by (simp add: yield_def statistics_line_def Let_def str_or_None_def extract_address_def
        match_here_def normalized_None)
qed

text \<open>
  C8 as stated fails: the record \<open>To: <\<close> has neither a \<open>From\<close> nor an
  \<open>X-Gmail-Labels\<close> header, looking up its \<open>To\<close> header raises \<open>IndexError\<close>,
  and \<open>read_messages\<close> ends with that exception before any record is produced.
\<close>

theorem absent_headers_lookup_counterexample:
  "MboxReader_init ''From a\<newline>To: <\<newline>\<newline>From b\<newline>x\<newline>'' =
     Inr \<lparr>handle = \<lparr>content = ''From a\<newline>To: <\<newline>\<newline>From b\<newline>x\<newline>'', offset = 7\<rparr>, size = 23\<rparr> \<and>
   message_from_bytes sample_parse ''To: <\<newline>\<newline>'' =
     Inr \<lparr>raw = ''To: <\<newline>\<newline>'', headers = malformed ''To'', x_sz = 7\<rparr> \<and>
   malformed ''To'' ''From'' = Inr None \<and>
   malformed ''To'' ''X-Gmail-Labels'' = Inr None \<and>
   statistics_line \<lparr>raw = ''To: <\<newline>\<newline>'', headers = malformed ''To'', x_sz = 7\<rparr> = Inl IndexError \<and>
   read_messages sample_parse
     \<lparr>handle = \<lparr>content = ''From a\<newline>To: <\<newline>\<newline>From b\<newline>x\<newline>'', offset = 7\<rparr>, size = 23\<rparr> =
     ([], Some IndexError)"
  by (simp add: MboxReader_init_Inr_iff run_simps)

section \<open>Properties of the address pattern\<close>

text \<open>
  An anchored match succeeds exactly on a bracketed address with a non-empty local part
  and a non-empty domain, and \<open>findall\<close> starts with the leftmost match.
\<close>

lemma match_here_complete:
  assumes "address_form local domain" and "local \<noteq> []" and "domain \<noteq> []"
  shows "match_here (bracketed local domain @ rest) = Some (local @ CHR ''@'' # domain, rest)"
proof -
  let ?P = "\<lambda>c. c \<noteq> CHR ''>'' \<and> c \<noteq> CHR ''@''"
  let ?Q = "\<lambda>c. c \<noteq> CHR ''>''"
  let ?r2 = "domain @ CHR ''>'' # rest"
  let ?r = "local @ CHR ''@'' # ?r2"
  from assms(1) have l: "\<And>c. c \<in> set local \<Longrightarrow> ?P c" and d: "\<And>c. c \<in> set domain \<Longrightarrow> ?Q c"
    by (auto simp: address_form_def)
  have t1: "takeWhile ?P ?r = local" using l by simp
  have d1: "dropWhile ?P ?r = CHR ''@'' # ?r2" using l by simp
  have t2: "takeWhile ?Q ?r2 = domain" using d by simp
  have d2: "dropWhile ?Q ?r2 = CHR ''>'' # rest" using d by simp
  have eq: "bracketed local domain @ rest = CHR ''<'' # ?r" by (simp add: bracketed_def)
  show ?thesis
    unfolding eq using assms(2,3) by (simp add: match_here_def Let_def t1 d1 t2 d2)
qed

lemma match_here_sound:
  assumes "match_here s = Some (g, rest)"
  shows "\<exists>local domain. s = bracketed local domain @ rest \<and> address_form local domain \<and>
           local \<noteq> [] \<and> domain \<noteq> [] \<and> g = local @ CHR ''@'' # domain"
proof -
  let ?P = "\<lambda>c. c \<noteq> CHR ''>'' \<and> c \<noteq> CHR ''@''"
  let ?Q = "\<lambda>c. c \<noteq> CHR ''>''"
  from assms obtain r r2 c3 where
    s: "s = CHR ''<'' # r" and
    l: "takeWhile ?P r \<noteq> []" and
    r1: "dropWhile ?P r = CHR ''@'' # r2" and
    d: "takeWhile ?Q r2 \<noteq> []" and
    r3: "dropWhile ?Q r2 = c3 # rest" and
    g: "g = takeWhile ?P r @ CHR ''@'' # takeWhile ?Q r2"
    by (auto simp: match_here_def Let_def split: list.splits if_splits)
  have "dropWhile ?Q r2 \<noteq> []" using r3 by simp
  then have "\<not> ?Q (hd (dropWhile ?Q r2))" by (rule hd_dropWhile)
  then have c3: "c3 = CHR ''>''" using r3 by simp
  have "r = takeWhile ?P r @ dropWhile ?P r" by simp
  then have r: "r = takeWhile ?P r @ CHR ''@'' # r2" using r1 by simp
  have "r2 = takeWhile ?Q r2 @ dropWhile ?Q r2" by simp
  then have r2: "r2 = takeWhile ?Q r2 @ CHR ''>'' # rest" using r3 c3 by simp
  have af: "address_form (takeWhile ?P r) (takeWhile ?Q r2)"
    by (auto simp: address_form_def dest: set_takeWhileD)
  have "s = bracketed (takeWhile ?P r) (takeWhile ?Q r2) @ rest"
    using s r r2 by (simp add: bracketed_def)
  with af l d g show ?thesis by blast
qed

lemma match_here_Nil: "match_here [] = None"
  by (simp add: match_here_def)

lemma findall_Nil_if_no_match:
  "(\<And>pre s. x = pre @ s \<Longrightarrow> match_here s = None) \<Longrightarrow> findall x = []"
proof (induction x)
  case Nil
  show ?case by simp
next
  case (Cons c cs)
  have "match_here (c # cs) = None" using Cons.prems [of "[]" "c # cs"] by simp
  moreover have "findall cs = []"
  proof (rule Cons.IH)
    fix pre s assume "cs = pre @ s"
    then have "c # cs = (c # pre) @ s" by simp
    then show "match_here s = None" by (rule Cons.prems)
  qed
  ultimately show ?case by simp
qed

lemma findall_first_match:
  assumes "match_here s = Some (g, rest)"
    and "\<And>pre' s'. pre @ s = pre' @ s' \<Longrightarrow> length pre' < length pre \<Longrightarrow> match_here s' = None"
  shows "findall (pre @ s) = g # findall rest"
  using assms
proof (induction pre)
  case Nil
  then obtain c cs where "s = c # cs" by (cases s) (auto simp: match_here_Nil)
  with Nil show ?case by simp
next
  case (Cons p ps)
  have "match_here ((p # ps) @ s) = None"
    using Cons.prems(2) [of "[]" "(p # ps) @ s"] by simp
  moreover have "findall (ps @ s) = g # findall rest"
  proof (rule Cons.IH [OF Cons.prems(1)])
    fix pre' s' assume "ps @ s = pre' @ s'" and "length pre' < length ps"
    then have "(p # ps) @ s = (p # pre') @ s'" and "length (p # pre') < length (p # ps)" by simp_all
    then show "match_here s' = None" by (rule Cons.prems(2))
  qed
  ultimately show ?case by simp
qed

section \<open>Claim about the address normalizer\<close>

text \<open>
  C6 (as amended). \<open>extract_address x\<close> returns the inner text \<open>local@domain\<close> of
  the first substring of \<open>x\<close> of the form \<open><local@domain>\<close> where \<open>local\<close> is not
  empty and contains no \<open>>\<close> and no \<open>@\<close> and \<open>domain\<close> is not empty and contains
  no \<open>>\<close>; when \<open>x\<close> has no such substring it returns \<open>x\<close> unchanged. The two
  examples of the claim hold.
\<close>

theorem extract_address_first_nonempty_bracketed:
  "(x = pre @ bracketed local domain @ post \<and> address_form local domain \<and>
      local \<noteq> [] \<and> domain \<noteq> [] \<and>
      (\<forall>pre' local' domain' post'.
          x = pre' @ bracketed local' domain' @ post' \<and> address_form local' domain' \<and>
          local' \<noteq> [] \<and> domain' \<noteq> [] \<longrightarrow> length pre \<le> length pre')
      \<longrightarrow> extract_address x = local @ CHR ''@'' # domain) \<and>
   (\<not> (\<exists>pre local domain post.
          x = pre @ bracketed local domain @ post \<and> address_form local domain \<and>
          local \<noteq> [] \<and> domain \<noteq> [])
      \<longrightarrow> extract_address x = x) \<and>
   extract_address ''Jane Doe <jane@example.com>'' = ''jane@example.com'' \<and>
   extract_address ''noreply'' = ''noreply''"
proof (intro conjI impI)
  assume a: "x = pre @ bracketed local domain @ post \<and> address_form local domain \<and>
      local \<noteq> [] \<and> domain \<noteq> [] \<and>
      (\<forall>pre' local' domain' post'.
          x = pre' @ bracketed local' domain' @ post' \<and> address_form local' domain' \<and>
          local' \<noteq> [] \<and> domain' \<noteq> [] \<longrightarrow> length pre \<le> length pre')"
  let ?s = "bracketed local domain @ post"
  from a have m: "match_here ?s = Some (local @ CHR ''@'' # domain, post)"
    by (simp add: match_here_complete)
  have "findall (pre @ ?s) = (local @ CHR ''@'' # domain) # findall post"
  proof (rule findall_first_match [OF m])
    fix pre' s' assume eq: "pre @ ?s = pre' @ s'" and lt: "length pre' < length pre"
    show "match_here s' = None"
    proof (rule ccontr)
      assume "match_here s' \<noteq> None"
      then obtain g rest where "match_here s' = Some (g, rest)" by auto
      then obtain local' domain' where "s' = bracketed local' domain' @ rest"
        and "address_form local' domain'" and "local' \<noteq> []" and "domain' \<noteq> []"
        using match_here_sound by blast
      with a eq have "length pre \<le> length pre'" by blast
      with lt show False by simp
    qed
  qed
  with a show "extract_address x = local @ CHR ''@'' # domain"
    by (simp add: extract_address_def)
next
  assume n: "\<not> (\<exists>pre local domain post.
          x = pre @ bracketed local domain @ post \<and> address_form local domain \<and>
          local \<noteq> [] \<and> domain \<noteq> [])"
  have "findall x = []"
  proof (rule findall_Nil_if_no_match)
    fix pre s assume x: "x = pre @ s"
    show "match_here s = None"
    proof (rule ccontr)
      assume "match_here s \<noteq> None"
      then obtain g rest where "match_here s = Some (g, rest)" by auto
      then obtain local' domain' where "s = bracketed local' domain' @ rest"
        and "address_form local' domain'" and "local' \<noteq> []" and "domain' \<noteq> []"
        using match_here_sound by blast
      with x n show False by blast
    qed
  qed
  then show "extract_address x = x" by (simp add: extract_address_def)
next
  show "extract_address ''Jane Doe <jane@example.com>'' = ''jane@example.com''"
    by (simp add: extract_address_def match_here_def)
  show "extract_address ''noreply'' = ''noreply''"
    by (simp add: extract_address_def match_here_def)
qed

text \<open>
  The amended C6 on a header whose first bracketed address starts at the first character,
  and on a header without brackets.
\<close>

theorem extract_address_witness:
  "extract_address ''<<a@b@c> <d@e>'' = ''<a@b@c'' \<and> extract_address ''a@b'' = ''a@b''"
proof -
  have d: "''<<a@b@c> <d@e>'' = [] @ bracketed ''<a'' ''b@c'' @ '' <d@e>''"
    by (simp add: bracketed_def)
  have f: "address_form ''<a'' ''b@c''" by (simp add: address_form_def)
  have m: "\<forall>pre' local' domain' post'.
      ''<<a@b@c> <d@e>'' = pre' @ bracketed local' domain' @ post' \<and>
      address_form local' domain' \<and> local' \<noteq> [] \<and> domain' \<noteq> [] \<longrightarrow>
      length ([] :: string) \<le> length pre'"
  proof (intro allI impI)
    fix pre' :: string
    show "length ([] :: string) \<le> length pre'" by simp
  qed
  have "extract_address ''<<a@b@c> <d@e>'' = ''<a'' @ CHR ''@'' # ''b@c''"
    using extract_address_first_nonempty_bracketed
      [of "''<<a@b@c> <d@e>''" "[]" "''<a''" "''b@c''" "'' <d@e>''"] d f m
    by blast
  then have 1: "extract_address ''<<a@b@c> <d@e>'' = ''<a@b@c''" by simp
  have n: "\<not> (\<exists>pre local domain post.
          ''a@b'' = pre @ bracketed local domain @ post \<and> address_form local domain \<and>
          local \<noteq> [] \<and> domain \<noteq> [])"
  proof
    assume "\<exists>pre local domain post.
          ''a@b'' = pre @ bracketed local domain @ post \<and> address_form local domain \<and>
          local \<noteq> [] \<and> domain \<noteq> []"
    then obtain pre l d post where e: "''a@b'' = pre @ bracketed l d @ post" by blast
    have "CHR ''<'' \<in> set (pre @ bracketed l d @ post)" by (simp add: bracketed_def)
    then have "CHR ''<'' \<in> set ''a@b''" by (simp only: e [symmetric])
    then show False by simp
  qed
  have 2: "extract_address ''a@b'' = ''a@b''"
    using extract_address_first_nonempty_bracketed [of "''a@b''"] n by blast
  from 1 2 show ?thesis by simp
qed

text \<open>
  C6 as stated fails: \<open><@b>\<close> has the form of the claim with an empty local part, and
  \<open>extract_address\<close> returns it unchanged instead of the inner text \<open>@b\<close>.
\<close>

theorem extract_address_empty_local_counterexample:
  "''<@b>'' = [] @ bracketed [] ''b'' @ [] \<and> address_form [] ''b'' \<and>
   extract_address ''<@b>'' = ''<@b>'' \<and> extract_address ''<@b>'' \<noteq> [] @ CHR ''@'' # ''b''"
  by (simp add: bracketed_def address_form_def extract_address_def match_here_def)

end
